theory Spec2Isabelle
  imports
    Complex_Main
    "HOL-Library.Char_ord"
    "HOL-Library.List_Lexorder"
    "HOL-Library.Sublist"
    "HOL-Library.Multiset"
begin

section \<open>Data model\<close>

text \<open>
  The catalog is the JSON array that \<^verbatim>\<open>load_mock\<close> reads: a list of dictionaries.
  The engine reads seven keys of each dictionary. A key that \<^verbatim>\<open>dict.get\<close> may find
  missing is an \<open>option\<close> field, \<open>None\<close> meaning that the key is absent. Prices
  are JSON numbers; every finite Python int or float is a rational and Python compares
  them exactly, so they are \<open>rat\<close>. A string is the list of the UTF-8 bytes of a
  Python \<^verbatim>\<open>str\<close>: equality, the lexicographic order and the test for a contiguous
  block are the same on the bytes as on the code points.
\<close>

record stockx_info =
  lastSale :: "rat option"

record sneaker =
  id_key :: "string option"
  brand :: "string option"
  model :: "string option"
  colorway :: "string option"
  releaseDate :: "string option"
  tags :: "string list option"
  stockx :: "stockx_info option"

text \<open>The exceptions that the modelled code can raise or meet.\<close>

datatype py_exc =
    OSError
  | UnicodeDecodeError
  | JSONDecodeError
  | KeyError
  | HTTPException nat
  | KeyboardInterrupt

text \<open>
  \<^verbatim>\<open>except Exception\<close> catches the subclasses of \<^verbatim>\<open>Exception\<close>;
  \<^verbatim>\<open>KeyboardInterrupt\<close> derives from \<^verbatim>\<open>BaseException\<close> only.
\<close>

fun is_Exception :: "py_exc \<Rightarrow> bool" where
  "is_Exception KeyboardInterrupt = False"
| "is_Exception _ = True"

section \<open>Strings\<close>

text \<open>
  \<^verbatim>\<open>str.lower\<close> and \<^verbatim>\<open>str.upper\<close> follow the Unicode tables of the Python
  interpreter, which are no part of the repository. The search therefore takes the case
  mapping as a parameter \<open>lower\<close>, and nothing is assumed about it but what a theorem
  says. On ASCII text the two mappings are the following: the letters \<^verbatim>\<open>A\<close> to
  \<^verbatim>\<open>Z\<close> move to \<^verbatim>\<open>a\<close> to \<^verbatim>\<open>z\<close> (and back), every other byte stays.
\<close>

definition ascii_lower_char :: "char \<Rightarrow> char" where
  "ascii_lower_char c =
     (if CHR ''A'' \<le> c \<and> c \<le> CHR ''Z'' then char_of (of_char c + (32::nat)) else c)"

definition ascii_lower :: "string \<Rightarrow> string" where
  "ascii_lower s = map ascii_lower_char s"

definition ascii_upper_char :: "char \<Rightarrow> char" where
  "ascii_upper_char c =
     (if CHR ''a'' \<le> c \<and> c \<le> CHR ''z'' then char_of (of_char c - (32::nat)) else c)"

definition ascii_upper :: "string \<Rightarrow> string" where
  "ascii_upper s = map ascii_upper_char s"

text \<open>ASCII text: every byte is below 128.\<close>

definition ascii :: "string \<Rightarrow> bool" where
  "ascii s = list_all (\<lambda>c. (of_char c :: nat) < 128) s"

text \<open>
  The letter sharp s (U+00DF) in UTF-8. Python lower-cases it to itself and upper-cases
  it to \<^verbatim>\<open>SS\<close>; \<open>upper_sharp_s\<close> is \<^verbatim>\<open>str.upper\<close> on text made of ASCII
  characters and sharp s, on which \<^verbatim>\<open>str.lower\<close> is \<open>ascii_lower\<close>.
\<close>

definition sharp_s :: string where
  "sharp_s = [char_of (195::nat), char_of (159::nat)]"

fun upper_sharp_s :: "string \<Rightarrow> string" where
  "upper_sharp_s [] = []"
| "upper_sharp_s [c] = [ascii_upper_char c]"
| "upper_sharp_s (c # d # s) =
     (if [c, d] = sharp_s then ''SS'' @ upper_sharp_s s
      else ascii_upper_char c # upper_sharp_s (d # s))"

text \<open>\<^verbatim>\<open>a in b\<close> on strings: \<open>a\<close> occurs in \<open>b\<close> as a contiguous block.\<close>

fun str_in :: "string \<Rightarrow> string \<Rightarrow> bool" where
  "str_in a [] = (a = [])"
| "str_in a (c # cs) = (prefix a (c # cs) \<or> str_in a cs)"

text \<open>Truthiness of an \<^verbatim>\<open>Optional[str]\<close>: \<^verbatim>\<open>None\<close> and \<^verbatim>\<open>""\<close> are falsy.\<close>

fun truthy :: "string option \<Rightarrow> bool" where
  "truthy None = False"
| "truthy (Some s) = (s \<noteq> [])"

text \<open>\<^verbatim>\<open>d.get(key, default)\<close> on a key that may be absent.\<close>

fun get_default :: "'a option \<Rightarrow> 'a \<Rightarrow> 'a" where
  "get_default None d = d"
| "get_default (Some v) d = v"

section \<open>Floats\<close>

text \<open>
  The price bounds are declared \<^verbatim>\<open>Optional[float]\<close>. A Python float is a finite
  number, an infinity or NaN; the finite ones compare as the rationals they are, and every
  comparison with NaN is false.
\<close>

datatype py_float = Fin rat | PosInf | NegInf | NaN

text \<open>\<^verbatim>\<open>x < y\<close> and \<^verbatim>\<open>x <= y\<close> on floats.\<close>

fun fl_lt :: "py_float \<Rightarrow> py_float \<Rightarrow> bool" where
  "fl_lt NaN y = False"
| "fl_lt x NaN = False"
| "fl_lt (Fin a) (Fin b) = (a < b)"
| "fl_lt (Fin a) PosInf = True"
| "fl_lt (Fin a) NegInf = False"
| "fl_lt NegInf NegInf = False"
| "fl_lt NegInf y = True"
| "fl_lt PosInf y = False"

fun fl_le :: "py_float \<Rightarrow> py_float \<Rightarrow> bool" where
  "fl_le NaN y = False"
| "fl_le x NaN = False"
| "fl_le (Fin a) (Fin b) = (a \<le> b)"
| "fl_le (Fin a) PosInf = True"
| "fl_le (Fin a) NegInf = False"
| "fl_le NegInf y = True"
| "fl_le PosInf PosInf = True"
| "fl_le PosInf y = False"

section \<open>The catalog loader\<close>

text \<open>
  \<^verbatim>\<open>load_mock\<close> opens the file and parses it inside one \<^verbatim>\<open>try\<close>. The world is
  the outcome of \<^verbatim>\<open>open\<close> (an exception or the file's text) and the parser
  \<^verbatim>\<open>json.load\<close> (an exception or the parsed list).
\<close>

definition load_mock :: "py_exc + string \<Rightarrow> (string \<Rightarrow> py_exc + 'a list) \<Rightarrow> py_exc + 'a list" where
  "load_mock opened json_load =
     (case (case opened of Inl e \<Rightarrow> Inl e | Inr f \<Rightarrow> json_load f) of
        Inr v \<Rightarrow> Inr v
      | Inl e \<Rightarrow> if is_Exception e then Inr [] else Inl e)"

section \<open>Search\<close>

text \<open>
  \<^verbatim>\<open>it.get("stockx", {}).get("lastSale")\<close>: absent when either key is absent.
\<close>

definition last_sale_of :: "sneaker \<Rightarrow> rat option" where
  "last_sale_of it = (case stockx it of None \<Rightarrow> None | Some s \<Rightarrow> lastSale s)"

text \<open>
  The body of the loop of \<^verbatim>\<open>filter_sneakers\<close> for one item: the flag \<open>ok\<close>
  starts true and each failed criterion clears it. The parameter \<open>lower\<close> is
  \<^verbatim>\<open>str.lower\<close>; the parameters \<open>brand_p\<close> and \<open>model_p\<close> are the source's
  \<^verbatim>\<open>brand\<close> and \<^verbatim>\<open>model\<close>. The catalog price is a number, the bounds are
  floats.
\<close>

definition item_ok ::
  "(string \<Rightarrow> string) \<Rightarrow> sneaker \<Rightarrow> string option \<Rightarrow> string option \<Rightarrow> string option
     \<Rightarrow> py_float option \<Rightarrow> py_float option \<Rightarrow> string option \<Rightarrow> string option \<Rightarrow> bool" where
  "item_ok lower it q brand_p model_p min_price max_price release_from release_to =
     (let ok = True;
          text = lower (get_default (brand it) [] @ '' '' @ get_default (model it) [] @ '' ''
                          @ get_default (colorway it) []);
          ok = (if truthy q \<and> \<not> str_in (lower (the q)) text then False else ok);
          ok = (if truthy brand_p \<and> lower (get_default (brand it) []) \<noteq> lower (the brand_p)
                then False else ok);
          ok = (if truthy model_p \<and> \<not> str_in (lower (the model_p)) (lower (get_default (model it) []))
                then False else ok);
          last_sale = last_sale_of it;
          ok = (if min_price \<noteq> None \<and>
                   (last_sale = None \<or> fl_lt (Fin (the last_sale)) (the min_price))
                then False else ok);
          ok = (if max_price \<noteq> None \<and>
                   (last_sale = None \<or> fl_lt (the max_price) (Fin (the last_sale)))
                then False else ok);
          rd = releaseDate it;
          ok = (if truthy release_from \<and> (rd = None \<or> the rd < the release_from)
                then False else ok);
          ok = (if truthy release_to \<and> (rd = None \<or> the rd > the release_to)
                then False else ok)
      in ok)"

text \<open>The loop, with the result list \<open>res\<close> as its state.\<close>

fun filter_loop ::
  "(string \<Rightarrow> string) \<Rightarrow> sneaker list \<Rightarrow> sneaker list \<Rightarrow> string option \<Rightarrow> string option
     \<Rightarrow> string option \<Rightarrow> py_float option \<Rightarrow> py_float option \<Rightarrow> string option
     \<Rightarrow> string option \<Rightarrow> sneaker list" where
  "filter_loop lower res [] q brand_p model_p min_price max_price release_from release_to = res"
| "filter_loop lower res (it # items) q brand_p model_p min_price max_price release_from release_to =
     filter_loop lower
       (if item_ok lower it q brand_p model_p min_price max_price release_from release_to
        then res @ [it] else res)
       items q brand_p model_p min_price max_price release_from release_to"

definition filter_sneakers ::
  "(string \<Rightarrow> string) \<Rightarrow> sneaker list \<Rightarrow> string option \<Rightarrow> string option \<Rightarrow> string option
     \<Rightarrow> py_float option \<Rightarrow> py_float option \<Rightarrow> string option \<Rightarrow> string option
     \<Rightarrow> sneaker list" where
  "filter_sneakers lower items q brand_p model_p min_price max_price release_from release_to =
     filter_loop lower [] items q brand_p model_p min_price max_price release_from release_to"

section \<open>Trending\<close>

text \<open>\<^verbatim>\<open>"trending" in d.get("tags", [])\<close>.\<close>

definition is_tagged :: "sneaker \<Rightarrow> bool" where
  "is_tagged d = (''trending'' \<in> set (get_default (tags d) []))"

text \<open>The sort key \<^verbatim>\<open>x.get("stockx", {}).get("lastSale", 0)\<close>.\<close>

definition sale_key :: "sneaker \<Rightarrow> rat" where
  "sale_key x = (case stockx x of None \<Rightarrow> 0 | Some s \<Rightarrow> get_default (lastSale s) 0)"

text \<open>
  \<^verbatim>\<open>sorted(xs, key=f, reverse=True)\<close>: Python reverses the list, sorts it stably in
  ascending order of the key, and reverses the result.
\<close>

definition sorted_reverse :: "('a \<Rightarrow> 'k::linorder) \<Rightarrow> 'a list \<Rightarrow> 'a list" where
  "sorted_reverse f xs = rev (sort_key f (rev xs))"

text \<open>\<^verbatim>\<open>{t["id"] for t in tagged}\<close>; a record without the key raises.\<close>

fun ids_of :: "sneaker list \<Rightarrow> py_exc + string set" where
  "ids_of [] = Inr {}"
| "ids_of (t # ts) =
     (case id_key t of
        None \<Rightarrow> Inl KeyError
      | Some i \<Rightarrow> (case ids_of ts of Inl e \<Rightarrow> Inl e | Inr s \<Rightarrow> Inr (insert i s)))"

text \<open>
  The fill loop over \<open>remaining\<close>, with the list \<open>tagged\<close> as its state; it stops
  at the \<^verbatim>\<open>break\<close> or at the end of the list.
\<close>

fun fill :: "string set \<Rightarrow> int \<Rightarrow> sneaker list \<Rightarrow> sneaker list \<Rightarrow> py_exc + sneaker list" where
  "fill ids limit tagged [] = Inr tagged"
| "fill ids limit tagged (item # remaining) =
     (case id_key item of
        None \<Rightarrow> Inl KeyError
      | Some i \<Rightarrow>
          (let tagged = (if i \<notin> ids then tagged @ [item] else tagged)
           in if int (length tagged) \<ge> limit then Inr tagged
              else fill ids limit tagged remaining))"

text \<open>The slice \<^verbatim>\<open>xs[:n]\<close>; a negative \<open>n\<close> counts from the end.\<close>

definition slice_to :: "'a list \<Rightarrow> int \<Rightarrow> 'a list" where
  "slice_to xs n = (if 0 \<le> n then take (nat n) xs else take (nat (int (length xs) + n)) xs)"

text \<open>\<^verbatim>\<open>trending\<close>, on the list \<open>data\<close> that \<^verbatim>\<open>load_mock()\<close> returned.\<close>

definition trending :: "sneaker list \<Rightarrow> int \<Rightarrow> py_exc + sneaker list" where
  "trending data limit =
     (let tagged = filter is_tagged data
      in if int (length tagged) < limit then
           (let remaining = sorted_reverse sale_key data
            in case ids_of tagged of
                 Inl e \<Rightarrow> Inl e
               | Inr ids \<Rightarrow>
                   (case fill ids limit tagged remaining of
                      Inl e \<Rightarrow> Inl e
                    | Inr tagged \<Rightarrow> Inr (slice_to tagged limit)))
         else Inr (slice_to tagged limit))"

section \<open>Detail lookup\<close>

text \<open>
  \<^verbatim>\<open>sneaker_detail\<close>, on the list that \<^verbatim>\<open>load_mock()\<close> returned:
  \<^verbatim>\<open>s.get("id") == sneaker_id\<close> is false for a record without the key.
\<close>

fun sneaker_detail :: "sneaker list \<Rightarrow> string \<Rightarrow> py_exc + sneaker" where
  "sneaker_detail [] sneaker_id = Inl (HTTPException 404)"
| "sneaker_detail (s # data) sneaker_id =
     (if id_key s = Some sneaker_id then Inr s else sneaker_detail data sneaker_id)"

section \<open>Example catalog\<close>

definition mk :: "string \<Rightarrow> string list \<Rightarrow> rat \<Rightarrow> sneaker" where
  "mk i ts p =
     \<lparr>id_key = Some i, brand = None, model = None, colorway = None, releaseDate = None,
      tags = Some ts, stockx = Some \<lparr>lastSale = Some p\<rparr>\<rparr>"

definition catalog :: "sneaker list" where
  "catalog = [mk ''a'' [] 100, mk ''b'' [''trending''] 50, mk ''c'' [] 200]"

text \<open>A record with a model name and nothing else but its id; a record with a release date.\<close>

definition named :: "string \<Rightarrow> string \<Rightarrow> sneaker" where
  "named i m =
     \<lparr>id_key = Some i, brand = None, model = Some m, colorway = None, releaseDate = None,
      tags = None, stockx = None\<rparr>"

definition released :: "string \<Rightarrow> string \<Rightarrow> sneaker" where
  "released i d =
     \<lparr>id_key = Some i, brand = None, model = None, colorway = None, releaseDate = Some d,
      tags = None, stockx = None\<rparr>"

text \<open>A catalog with two records without a price, and one with two records sharing an id.\<close>

definition shelf :: "sneaker list" where
  "shelf = [named ''n'' ''Air'', mk ''a'' [] 100, named ''o'' ''Dunk'', mk ''b'' [''trending''] 50]"

definition twins :: "sneaker list" where
  "twins = [mk ''a'' [''trending''] 100, mk ''a'' [''trending''] 50]"

section \<open>Search: the loop is a filter\<close>

lemma filter_loop_append:
  "filter_loop lower res items q b m mn mx rf rt =
     res @ filter (\<lambda>it. item_ok lower it q b m mn mx rf rt) items"
  by (induction items arbitrary: res) simp_all

lemma filter_sneakers_filter:
  "filter_sneakers lower items q b m mn mx rf rt
     = filter (\<lambda>it. item_ok lower it q b m mn mx rf rt) items"
  by (simp add: filter_sneakers_def filter_loop_append)

section \<open>Search: what the flag says\<close>

lemma item_ok_conj:
  "item_ok lower it q b m mn mx rf rt \<longleftrightarrow>
     \<not> (truthy q \<and> \<not> str_in (lower (the q))
        (lower (get_default (brand it) [] @ '' '' @ get_default (model it) [] @ '' ''
                  @ get_default (colorway it) []))) \<and>
     \<not> (truthy b \<and> lower (get_default (brand it) []) \<noteq> lower (the b)) \<and>
     \<not> (truthy m \<and> \<not> str_in (lower (the m)) (lower (get_default (model it) []))) \<and>
     \<not> (mn \<noteq> None \<and> (last_sale_of it = None \<or> fl_lt (Fin (the (last_sale_of it))) (the mn))) \<and>
     \<not> (mx \<noteq> None \<and> (last_sale_of it = None \<or> fl_lt (the mx) (Fin (the (last_sale_of it))))) \<and>
     \<not> (truthy rf \<and> (releaseDate it = None \<or> the (releaseDate it) < the rf)) \<and>
     \<not> (truthy rt \<and> (releaseDate it = None \<or> the (releaseDate it) > the rt))"
  unfolding item_ok_def Let_def by (simp only: if_False if_True split: if_split) blast

lemma not_fl_lt_Fin_left: "p \<noteq> NaN \<Longrightarrow> \<not> fl_lt (Fin s) p \<Longrightarrow> fl_le p (Fin s)"
  by (cases p) simp_all

lemma not_fl_lt_Fin_right: "p \<noteq> NaN \<Longrightarrow> \<not> fl_lt p (Fin s) \<Longrightarrow> fl_le (Fin s) p"
  by (cases p) simp_all

lemma item_ok_price_present_min:
  "item_ok lower it q b m (Some p) mx rf rt \<Longrightarrow> last_sale_of it \<noteq> None"
  by (simp add: item_ok_conj)

lemma item_ok_price_present_max:
  "item_ok lower it q b m mn (Some p) rf rt \<Longrightarrow> last_sale_of it \<noteq> None"
  by (simp add: item_ok_conj)

lemma item_ok_min_price:
  "item_ok lower it q b m (Some p) mx rf rt \<Longrightarrow> p \<noteq> NaN \<Longrightarrow>
     \<exists>s. last_sale_of it = Some s \<and> fl_le p (Fin s)"
  by (cases "last_sale_of it") (simp_all add: item_ok_conj not_fl_lt_Fin_left)

lemma item_ok_max_price:
  "item_ok lower it q b m mn (Some p) rf rt \<Longrightarrow> p \<noteq> NaN \<Longrightarrow>
     \<exists>s. last_sale_of it = Some s \<and> fl_le (Fin s) p"
  by (cases "last_sale_of it") (simp_all add: item_ok_conj not_fl_lt_Fin_right)

lemma item_ok_min_zero:
  "item_ok lower it q b m (Some (Fin 0)) mx rf rt \<Longrightarrow> \<exists>s. last_sale_of it = Some s \<and> 0 \<le> s"
  by (cases "last_sale_of it") (simp_all add: item_ok_conj not_less)

lemma item_ok_max_zero:
  "item_ok lower it q b m mn (Some (Fin 0)) rf rt \<Longrightarrow> \<exists>s. last_sale_of it = Some s \<and> s \<le> 0"
  by (cases "last_sale_of it") (simp_all add: item_ok_conj not_less)

lemma item_ok_release_from:
  "item_ok lower it q b m mn mx (Some d) rt \<Longrightarrow> d \<noteq> [] \<Longrightarrow>
     \<exists>r. releaseDate it = Some r \<and> d \<le> r"
  by (cases "releaseDate it") (simp_all add: item_ok_conj not_less)

lemma item_ok_release_to:
  "item_ok lower it q b m mn mx rf (Some d) \<Longrightarrow> d \<noteq> [] \<Longrightarrow>
     \<exists>r. releaseDate it = Some r \<and> r \<le> d"
  by (cases "releaseDate it") (simp_all add: item_ok_conj not_less)

text \<open>
  C6. Whatever criteria are supplied, the output of \<open>filter_sneakers\<close> is a subsequence
  of its input: it is obtained from the input by deleting records, so every output record
  occurs in the input, none is duplicated and none is reordered.
\<close>

theorem filter_subsequence:
  "subseq (filter_sneakers lower items q b m mn mx rf rt) items"
  by (simp add: filter_sneakers_filter)

section \<open>Search: price bounds\<close>

text \<open>
  C5 as stated fails for the bound NaN: no comparison with NaN is true, so neither test
  clears the flag and every priced record is in the output, though its price is not at
  least NaN.
\<close>

theorem filter_price_nan_counterexample:
  "filter_sneakers ascii_lower catalog None None None (Some NaN) None None None = catalog \<and>
   last_sale_of (mk ''a'' [] 100) = Some 100 \<and>
   mk ''a'' [] 100 \<in> set catalog \<and>
   \<not> fl_le NaN (Fin 100)"
  by (simp add: filter_sneakers_def item_ok_def catalog_def mk_def last_sale_of_def)

text \<open>
  C5, amended. For every bound \<open>p\<close> other than NaN: with \<open>min_price = p\<close> every record
  of the output has a last sale price that is present and at least \<open>p\<close>, and with
  \<open>max_price = p\<close> every record of the output has one that is present and at most
  \<open>p\<close>. For every bound, NaN too, a record whose last sale price is absent is in the
  output of neither.
\<close>

theorem filter_price_bounds:
  "(p \<noteq> NaN \<longrightarrow>
      (\<forall>r \<in> set (filter_sneakers lower items q b m (Some p) mx rf rt).
         \<exists>s. last_sale_of r = Some s \<and> fl_le p (Fin s))) \<and>
   (p \<noteq> NaN \<longrightarrow>
      (\<forall>r \<in> set (filter_sneakers lower items q b m mn (Some p) rf rt).
         \<exists>s. last_sale_of r = Some s \<and> fl_le (Fin s) p)) \<and>
   (\<forall>r. last_sale_of r = None \<longrightarrow>
       r \<notin> set (filter_sneakers lower items q b m (Some p) mx rf rt) \<and>
       r \<notin> set (filter_sneakers lower items q b m mn (Some p) rf rt))"
proof (intro conjI ballI allI impI)
  fix r assume "p \<noteq> NaN" "r \<in> set (filter_sneakers lower items q b m (Some p) mx rf rt)"
  then show "\<exists>s. last_sale_of r = Some s \<and> fl_le p (Fin s)"
    using item_ok_min_price [of lower r q b m p mx rf rt] by (simp add: filter_sneakers_filter)
next
  fix r assume "p \<noteq> NaN" "r \<in> set (filter_sneakers lower items q b m mn (Some p) rf rt)"
  then show "\<exists>s. last_sale_of r = Some s \<and> fl_le (Fin s) p"
    using item_ok_max_price [of lower r q b m mn p rf rt] by (simp add: filter_sneakers_filter)
next
  fix r assume "last_sale_of r = None"
  then show "r \<notin> set (filter_sneakers lower items q b m (Some p) mx rf rt)"
    using item_ok_price_present_min [of lower r q b m p mx rf rt]
    by (auto simp: filter_sneakers_filter)
next
  fix r assume "last_sale_of r = None"
  then show "r \<notin> set (filter_sneakers lower items q b m mn (Some p) rf rt)"
    using item_ok_price_present_max [of lower r q b m mn p rf rt]
    by (auto simp: filter_sneakers_filter)
qed

text \<open>
  On the example catalog a lower bound of 150 leaves \<open>c\<close>, an upper bound of 50 leaves
  \<open>b\<close>, and a bound of 0 removes a record without a price.
\<close>

theorem filter_price_bounds_witness:
  "Fin 150 \<noteq> NaN \<and> Fin 50 \<noteq> NaN \<and>
   filter_sneakers ascii_lower catalog None None None (Some (Fin 150)) None None None
     = [mk ''c'' [] 200] \<and>
   (\<exists>s. last_sale_of (mk ''c'' [] 200) = Some s \<and> fl_le (Fin 150) (Fin s)) \<and>
   filter_sneakers ascii_lower catalog None None None None (Some (Fin 50)) None None
     = [mk ''b'' [''trending''] 50] \<and>
   (\<exists>s. last_sale_of (mk ''b'' [''trending''] 50) = Some s \<and> fl_le (Fin s) (Fin 50)) \<and>
   last_sale_of (named ''n'' ''Air'') = None \<and>
   named ''n'' ''Air''
     \<notin> set (filter_sneakers ascii_lower [named ''n'' ''Air''] None None None (Some (Fin 0)) None None None)"
proof -
  have n: "Fin 150 \<noteq> NaN" "Fin 50 \<noteq> NaN"
    by simp_all
  have a: "filter_sneakers ascii_lower catalog None None None (Some (Fin 150)) None None None
             = [mk ''c'' [] 200]"
    by code_simp
  have b: "filter_sneakers ascii_lower catalog None None None None (Some (Fin 50)) None None
             = [mk ''b'' [''trending''] 50]"
    by code_simp
  have c: "last_sale_of (named ''n'' ''Air'') = None"
    by code_simp
  note t = filter_price_bounds [of "Fin 150" ascii_lower catalog None None None None None None None]
  note t' = filter_price_bounds [of "Fin 50" ascii_lower catalog None None None None None None None]
  note u = filter_price_bounds [of "Fin 0" ascii_lower "[named ''n'' ''Air'']" None None None None None None None]
  from t a n have 1: "\<exists>s. last_sale_of (mk ''c'' [] 200) = Some s \<and> fl_le (Fin 150) (Fin s)"
    by simp
  from t' b n have 2: "\<exists>s. last_sale_of (mk ''b'' [''trending''] 50) = Some s \<and> fl_le (Fin s) (Fin 50)"
    by simp
  from u c have 3: "named ''n'' ''Air''
     \<notin> set (filter_sneakers ascii_lower [named ''n'' ''Air''] None None None (Some (Fin 0)) None None None)"
    by blast
  from n a b c 1 2 3 show ?thesis by blast
qed

section \<open>Search: empty strings and zero bounds\<close>

lemma item_ok_empty_q:
  "item_ok lower it (Some []) b m mn mx rf rt = item_ok lower it None b m mn mx rf rt"
  by (simp add: item_ok_conj)

lemma item_ok_empty_brand:
  "item_ok lower it q (Some []) m mn mx rf rt = item_ok lower it q None m mn mx rf rt"
  by (simp add: item_ok_conj)

lemma item_ok_empty_model:
  "item_ok lower it q b (Some []) mn mx rf rt = item_ok lower it q b None mn mx rf rt"
  by (simp add: item_ok_conj)

lemma item_ok_empty_from:
  "item_ok lower it q b m mn mx (Some []) rt = item_ok lower it q b m mn mx None rt"
  by (simp add: item_ok_conj)

lemma item_ok_empty_to:
  "item_ok lower it q b m mn mx rf (Some []) = item_ok lower it q b m mn mx rf None"
  by (simp add: item_ok_conj)

text \<open>
  C3. An empty string given for \<open>q\<close>, \<open>brand\<close>, \<open>model\<close>, \<open>release_from\<close> or
  \<open>release_to\<close> gives the output that the absent criterion gives; in particular a record
  without a release date passes \<open>release_from = ""\<close> exactly when it passes without the
  criterion. A price bound of 0 is a bound like any other: every output record has a last
  sale price that is present and within the bound, and a record without one is excluded.
\<close>

theorem filter_empty_string_is_absent:
  "filter_sneakers lower items (Some '''') b m mn mx rf rt
     = filter_sneakers lower items None b m mn mx rf rt \<and>
   filter_sneakers lower items q (Some '''') m mn mx rf rt
     = filter_sneakers lower items q None m mn mx rf rt \<and>
   filter_sneakers lower items q b (Some '''') mn mx rf rt
     = filter_sneakers lower items q b None mn mx rf rt \<and>
   filter_sneakers lower items q b m mn mx (Some '''') rt
     = filter_sneakers lower items q b m mn mx None rt \<and>
   filter_sneakers lower items q b m mn mx rf (Some '''')
     = filter_sneakers lower items q b m mn mx rf None \<and>
   (\<forall>r \<in> set items. releaseDate r = None \<longrightarrow>
      item_ok lower r q b m mn mx (Some '''') rt = item_ok lower r q b m mn mx None rt) \<and>
   (\<forall>r \<in> set (filter_sneakers lower items q b m (Some (Fin 0)) mx rf rt).
      \<exists>s. last_sale_of r = Some s \<and> 0 \<le> s) \<and>
   (\<forall>r \<in> set (filter_sneakers lower items q b m mn (Some (Fin 0)) rf rt).
      \<exists>s. last_sale_of r = Some s \<and> s \<le> 0) \<and>
   (\<forall>r. last_sale_of r = None \<longrightarrow>
      r \<notin> set (filter_sneakers lower items q b m (Some (Fin 0)) mx rf rt) \<and>
      r \<notin> set (filter_sneakers lower items q b m mn (Some (Fin 0)) rf rt))"
proof (intro conjI ballI allI impI)
  fix r assume "r \<in> set (filter_sneakers lower items q b m (Some (Fin 0)) mx rf rt)"
  then show "\<exists>s. last_sale_of r = Some s \<and> 0 \<le> s"
    using item_ok_min_zero [of lower r q b m mx rf rt] by (simp add: filter_sneakers_filter)
next
  fix r assume "r \<in> set (filter_sneakers lower items q b m mn (Some (Fin 0)) rf rt)"
  then show "\<exists>s. last_sale_of r = Some s \<and> s \<le> 0"
    using item_ok_max_zero [of lower r q b m mn rf rt] by (simp add: filter_sneakers_filter)
next
  fix r assume "last_sale_of r = None"
  then show "r \<notin> set (filter_sneakers lower items q b m (Some (Fin 0)) mx rf rt)"
    using item_ok_price_present_min [of lower r q b m "Fin 0" mx rf rt]
    by (auto simp: filter_sneakers_filter)
next
  fix r assume "last_sale_of r = None"
  then show "r \<notin> set (filter_sneakers lower items q b m mn (Some (Fin 0)) rf rt)"
    using item_ok_price_present_max [of lower r q b m mn "Fin 0" rf rt]
    by (auto simp: filter_sneakers_filter)
qed (simp_all add: filter_sneakers_filter item_ok_empty_q item_ok_empty_brand
      item_ok_empty_model item_ok_empty_from item_ok_empty_to)

text \<open>
  A record without release date and without price passes \<open>release_from = ""\<close> and fails
  \<open>min_price = 0\<close>.
\<close>

theorem filter_empty_string_is_absent_witness:
  "filter_sneakers ascii_lower [named ''n'' ''Air'', mk ''c'' [] 200]
     None None None None None (Some '''') None
     = [named ''n'' ''Air'', mk ''c'' [] 200] \<and>
   releaseDate (named ''n'' ''Air'') = None \<and>
   filter_sneakers ascii_lower [named ''n'' ''Air'', mk ''c'' [] 200]
     None None None (Some (Fin 0)) None None None
     = [mk ''c'' [] 200] \<and>
   (\<exists>s. last_sale_of (mk ''c'' [] 200) = Some s \<and> 0 \<le> s) \<and>
   last_sale_of (named ''n'' ''Air'') = None"
proof -
  let ?items = "[named ''n'' ''Air'', mk ''c'' [] 200]"
  note t = filter_empty_string_is_absent [of ascii_lower ?items None None None None None None None]
  have a: "filter_sneakers ascii_lower ?items None None None None None None None = ?items"
    by code_simp
  have b: "filter_sneakers ascii_lower ?items None None None (Some (Fin 0)) None None None
             = [mk ''c'' [] 200]"
    by code_simp
  have c: "releaseDate (named ''n'' ''Air'') = None" "last_sale_of (named ''n'' ''Air'') = None"
    by code_simp+
  from t a have 1: "filter_sneakers ascii_lower ?items None None None None None (Some '''') None = ?items"
    by simp
  from t b have 2: "\<exists>s. last_sale_of (mk ''c'' [] 200) = Some s \<and> 0 \<le> s"
    by simp
  from 1 2 b c show ?thesis by blast
qed

section \<open>Search: case\<close>

lemma item_ok_q_lower:
  "lower q = lower q' \<Longrightarrow> (q = []) = (q' = []) \<Longrightarrow>
   item_ok lower it (Some q) b m mn mx rf rt = item_ok lower it (Some q') b m mn mx rf rt"
  by (simp add: item_ok_conj)

lemma ascii_lower_upper_char: "ascii_lower_char (ascii_upper_char c) = ascii_lower_char c"
  by (auto simp add: ascii_lower_char_def ascii_upper_char_def less_eq_char_def)

lemma ascii_lower_lower_char: "ascii_lower_char (ascii_lower_char c) = ascii_lower_char c"
  by (auto simp add: ascii_lower_char_def less_eq_char_def)

lemma ascii_lower_upper: "ascii_lower (ascii_upper s) = ascii_lower s"
  by (simp add: ascii_lower_def ascii_upper_def ascii_lower_upper_char)

lemma ascii_lower_lower: "ascii_lower (ascii_lower s) = ascii_lower s"
  by (simp add: ascii_lower_def ascii_lower_lower_char)

lemma ascii_upper_char_below: "(of_char c :: nat) < 128 \<Longrightarrow> (of_char (ascii_upper_char c) :: nat) < 128"
  by (auto simp add: ascii_upper_char_def less_eq_char_def)

lemma ascii_lower_char_below: "(of_char c :: nat) < 128 \<Longrightarrow> (of_char (ascii_lower_char c) :: nat) < 128"
  by (auto simp add: ascii_lower_char_def less_eq_char_def)

lemma ascii_ascii_upper: "ascii s \<Longrightarrow> ascii (ascii_upper s)"
  by (simp add: ascii_def ascii_upper_def list_all_iff ascii_upper_char_below)

lemma ascii_ascii_lower: "ascii s \<Longrightarrow> ascii (ascii_lower s)"
  by (simp add: ascii_def ascii_lower_def list_all_iff ascii_lower_char_below)

lemma str_in_sublist: "str_in a b = sublist a b"
  by (induction b) (auto simp: sublist_Cons_right)

lemma item_ok_q_only:
  "q \<noteq> [] \<Longrightarrow> item_ok lower it (Some q) None None None None None None =
     sublist (lower q) (lower (get_default (brand it) [] @ '' '' @ get_default (model it) [] @ '' ''
                  @ get_default (colorway it) []))"
  by (simp add: item_ok_conj str_in_sublist)

lemma lower_upper_on_ascii:
  assumes rt: "\<forall>t. ascii t \<longrightarrow> lower t = ascii_lower t \<and> upper t = ascii_upper t"
    and s: "ascii s"
  shows "lower (upper s) = lower (lower s) \<and> ((upper s = []) = (lower s = []))"
proof -
  from rt s have u: "upper s = ascii_upper s" and l: "lower s = ascii_lower s"
    by simp_all
  from rt ascii_ascii_upper [OF s] have "lower (ascii_upper s) = ascii_lower (ascii_upper s)"
    by simp
  with u have 1: "lower (upper s) = ascii_lower s"
    by (simp add: ascii_lower_upper)
  from rt ascii_ascii_lower [OF s] have "lower (ascii_lower s) = ascii_lower (ascii_lower s)"
    by simp
  with l have 2: "lower (lower s) = ascii_lower s"
    by (simp add: ascii_lower_lower)
  from u l have 3: "(upper s = []) = (lower s = [])"
    by (simp add: ascii_upper_def ascii_lower_def)
  from 1 2 3 show ?thesis by simp
qed

text \<open>
  C9 as stated fails. The upper-case form of sharp s is \<^verbatim>\<open>SS\<close>, whose lower-case form
  \<^verbatim>\<open>ss\<close> does not occur in the lower-cased text of a shoe named \<^verbatim>\<open>Stra\<close>, sharp s,
  \<^verbatim>\<open>e\<close>, while sharp s itself does: the query in upper case selects nothing and the
  query in lower case selects the shoe.
\<close>

theorem filter_q_case_counterexample:
  "upper_sharp_s sharp_s = ''SS'' \<and>
   ascii_lower sharp_s = sharp_s \<and>
   filter_sneakers ascii_lower [named ''n'' (''Stra'' @ sharp_s @ ''e'')]
     (Some (upper_sharp_s sharp_s)) None None None None None None = [] \<and>
   filter_sneakers ascii_lower [named ''n'' (''Stra'' @ sharp_s @ ''e'')]
     (Some (ascii_lower sharp_s)) None None None None None None
     = [named ''n'' (''Stra'' @ sharp_s @ ''e'')]"
  by code_simp

text \<open>
  C9, amended. Let \<open>lower\<close> and \<open>upper\<close> be case mappings that act on ASCII text as
  \<^verbatim>\<open>str.lower\<close> and \<^verbatim>\<open>str.upper\<close> do. Then for every ASCII string the query in
  upper case and the query in lower case select the same records, as do \<^verbatim>\<open>AIR\<close> and
  \<^verbatim>\<open>air\<close>. For any case mapping, two queries with the same lower-case form, both empty
  or both not, select the same records; and with only \<open>q\<close> supplied and not empty, the
  output is the records in which the lower-cased \<open>q\<close> occurs as a contiguous block of the
  lower-cased text \<open>brand + " " + model + " " + colorway\<close>.
\<close>

theorem filter_q_case_insensitive:
  "((\<forall>t. ascii t \<longrightarrow> lower t = ascii_lower t \<and> upper t = ascii_upper t) \<and> ascii s \<longrightarrow>
      filter_sneakers lower items (Some (upper s)) b m mn mx rf rt
        = filter_sneakers lower items (Some (lower s)) b m mn mx rf rt) \<and>
   ((\<forall>t. ascii t \<longrightarrow> lower t = ascii_lower t \<and> upper t = ascii_upper t) \<longrightarrow>
      filter_sneakers lower items (Some ''AIR'') b m mn mx rf rt
        = filter_sneakers lower items (Some ''air'') b m mn mx rf rt) \<and>
   (lower q = lower q' \<and> (q = []) = (q' = []) \<longrightarrow>
      filter_sneakers lower items (Some q) b m mn mx rf rt
        = filter_sneakers lower items (Some q') b m mn mx rf rt) \<and>
   (q \<noteq> [] \<longrightarrow>
      filter_sneakers lower items (Some q) None None None None None None
        = filter (\<lambda>it. sublist (lower q)
            (lower (get_default (brand it) [] @ '' '' @ get_default (model it) [] @ '' ''
                      @ get_default (colorway it) []))) items)"
proof (intro conjI impI)
  assume "(\<forall>t. ascii t \<longrightarrow> lower t = ascii_lower t \<and> upper t = ascii_upper t) \<and> ascii s"
  then have "lower (upper s) = lower (lower s) \<and> ((upper s = []) = (lower s = []))"
    using lower_upper_on_ascii [of lower upper s] by blast
  then show "filter_sneakers lower items (Some (upper s)) b m mn mx rf rt
     = filter_sneakers lower items (Some (lower s)) b m mn mx rf rt"
    by (simp add: filter_sneakers_filter item_ok_q_lower [of lower "upper s" "lower s"])
next
  assume rt: "\<forall>t. ascii t \<longrightarrow> lower t = ascii_lower t \<and> upper t = ascii_upper t"
  have "ascii ''AIR''" "ascii ''air''"
    by (simp_all add: ascii_def)
  with rt have "lower ''AIR'' = ascii_lower ''AIR''" "lower ''air'' = ascii_lower ''air''"
    by blast+
  moreover have "ascii_lower ''AIR'' = ascii_lower ''air''"
    by code_simp
  ultimately have "lower ''AIR'' = lower ''air''"
    by simp
  then show "filter_sneakers lower items (Some ''AIR'') b m mn mx rf rt
     = filter_sneakers lower items (Some ''air'') b m mn mx rf rt"
    by (simp add: filter_sneakers_filter item_ok_q_lower [of lower "''AIR''" "''air''"])
next
  assume "lower q = lower q' \<and> (q = []) = (q' = [])"
  then show "filter_sneakers lower items (Some q) b m mn mx rf rt
        = filter_sneakers lower items (Some q') b m mn mx rf rt"
    by (simp add: filter_sneakers_filter item_ok_q_lower [of lower q q'])
next
  assume "q \<noteq> []"
  then show "filter_sneakers lower items (Some q) None None None None None None
        = filter (\<lambda>it. sublist (lower q)
            (lower (get_default (brand it) [] @ '' '' @ get_default (model it) [] @ '' ''
                      @ get_default (colorway it) []))) items"
    by (simp add: filter_sneakers_filter item_ok_q_only)
qed

text \<open>
  With the ASCII mappings themselves and the query \<^verbatim>\<open>Air\<close>: both forms select the
  shoe named \<^verbatim>\<open>Air Max\<close> and not the one named \<^verbatim>\<open>Dunk\<close>.
\<close>

theorem filter_q_case_insensitive_witness:
  "ascii ''Air'' \<and> ascii_upper ''Air'' = ''AIR'' \<and> ascii_lower ''Air'' = ''air'' \<and>
   filter_sneakers ascii_lower [named ''n'' ''Air Max'', named ''o'' ''Dunk'']
     (Some (ascii_upper ''Air'')) None None None None None None
     = [named ''n'' ''Air Max''] \<and>
   filter_sneakers ascii_lower [named ''n'' ''Air Max'', named ''o'' ''Dunk'']
     (Some (ascii_lower ''Air'')) None None None None None None
     = [named ''n'' ''Air Max'']"
proof -
  let ?items = "[named ''n'' ''Air Max'', named ''o'' ''Dunk'']"
  have rt: "\<forall>t. ascii t \<longrightarrow> ascii_lower t = ascii_lower t \<and> ascii_upper t = ascii_upper t"
    by simp
  have a: "ascii ''Air''"
    by (simp add: ascii_def)
  have u: "ascii_upper ''Air'' = ''AIR''" "ascii_lower ''Air'' = ''air''"
    by code_simp+
  have v: "filter_sneakers ascii_lower ?items (Some (ascii_lower ''Air'')) None None None None None None
             = [named ''n'' ''Air Max'']"
    by code_simp
  from rt a
    filter_q_case_insensitive [of ascii_lower ascii_upper "''Air''" ?items None None None None None None]
  have "filter_sneakers ascii_lower ?items (Some (ascii_upper ''Air'')) None None None None None None
          = filter_sneakers ascii_lower ?items (Some (ascii_lower ''Air'')) None None None None None None"
    by blast
  with a u v show ?thesis by simp
qed

section \<open>Search: release dates\<close>

text \<open>
  C2 as stated fails: \<open>release_from = ""\<close> is supplied, and a record without a release
  date is in the output.
\<close>

theorem filter_release_counterexample:
  "filter_sneakers ascii_lower [named ''n'' ''Air''] None None None None None (Some '''') None
     = [named ''n'' ''Air''] \<and>
   releaseDate (named ''n'' ''Air'') = None"
  by code_simp

text \<open>
  C2, amended. Whenever \<open>release_from\<close> is supplied and not the empty string, every record
  of the output has a release date that is present and lexicographically at least
  \<open>release_from\<close>; whenever \<open>release_to\<close> is supplied and not the empty string, every
  record of the output has a release date that is present and lexicographically at most
  \<open>release_to\<close>.
\<close>

theorem filter_release_bounds:
  "(d \<noteq> [] \<longrightarrow>
      (\<forall>r \<in> set (filter_sneakers lower items q b m mn mx (Some d) rt).
         \<exists>x. releaseDate r = Some x \<and> d \<le> x)) \<and>
   (d \<noteq> [] \<longrightarrow>
      (\<forall>r \<in> set (filter_sneakers lower items q b m mn mx rf (Some d)).
         \<exists>x. releaseDate r = Some x \<and> x \<le> d))"
proof (intro conjI impI ballI)
  fix r assume "d \<noteq> []" "r \<in> set (filter_sneakers lower items q b m mn mx (Some d) rt)"
  then show "\<exists>x. releaseDate r = Some x \<and> d \<le> x"
    using item_ok_release_from [of lower r q b m mn mx d rt] by (simp add: filter_sneakers_filter)
next
  fix r assume "d \<noteq> []" "r \<in> set (filter_sneakers lower items q b m mn mx rf (Some d))"
  then show "\<exists>x. releaseDate r = Some x \<and> x \<le> d"
    using item_ok_release_to [of lower r q b m mn mx rf d] by (simp add: filter_sneakers_filter)
qed

theorem filter_release_bounds_witness:
  "''2021-01-01'' \<noteq> [] \<and>
   filter_sneakers ascii_lower
     [released ''x'' ''2020-01-01'', released ''y'' ''2021-06-15'', named ''n'' ''Air'']
     None None None None None (Some ''2021-01-01'') None = [released ''y'' ''2021-06-15''] \<and>
   (\<exists>x. releaseDate (released ''y'' ''2021-06-15'') = Some x \<and> ''2021-01-01'' \<le> x) \<and>
   filter_sneakers ascii_lower
     [released ''x'' ''2020-01-01'', released ''y'' ''2021-06-15'', named ''n'' ''Air'']
     None None None None None None (Some ''2021-01-01'') = [released ''x'' ''2020-01-01''] \<and>
   (\<exists>x. releaseDate (released ''x'' ''2020-01-01'') = Some x \<and> x \<le> ''2021-01-01'')"
proof -
  let ?items = "[released ''x'' ''2020-01-01'', released ''y'' ''2021-06-15'', named ''n'' ''Air'']"
  have n: "''2021-01-01'' \<noteq> []"
    by simp
  have a: "filter_sneakers ascii_lower ?items None None None None None (Some ''2021-01-01'') None
             = [released ''y'' ''2021-06-15'']"
    by code_simp
  have b: "filter_sneakers ascii_lower ?items None None None None None None (Some ''2021-01-01'')
             = [released ''x'' ''2020-01-01'']"
    by code_simp
  note t = filter_release_bounds
    [of "''2021-01-01''" ascii_lower ?items None None None None None None None]
  from t n a have 1: "\<exists>x. releaseDate (released ''y'' ''2021-06-15'') = Some x \<and> ''2021-01-01'' \<le> x"
    by simp
  from t n b have 2: "\<exists>x. releaseDate (released ''x'' ''2020-01-01'') = Some x \<and> x \<le> ''2021-01-01''"
    by simp
  from n a b 1 2 show ?thesis by blast
qed

section \<open>Trending: the sort and the fill loop\<close>

lemma mset_sorted_reverse: "mset (sorted_reverse f xs) = mset xs"
  by (simp add: sorted_reverse_def)

lemma set_sorted_reverse: "set (sorted_reverse f xs) = set xs"
  by (simp add: sorted_reverse_def)

lemma sorted_reverse_descending: "sorted_wrt (\<lambda>x y. f x \<ge> f y) (sorted_reverse f xs)"
proof -
  have "sorted (map f (sort_key f (rev xs)))" by simp
  then have "sorted_wrt (\<lambda>x y. f x \<le> f y) (sort_key f (rev xs))"
    by (simp add: sorted_wrt_map)
  then show ?thesis
    by (simp add: sorted_reverse_def sorted_wrt_rev)
qed

lemma sorted_reverse_stable:
  "filter (\<lambda>y. f y = k) (sorted_reverse f xs) = filter (\<lambda>y. f y = k) xs"
proof -
  have "filter (\<lambda>y. f y = k) (sorted_reverse f xs)
          = rev (filter (\<lambda>y. f y = k) (sort_key f (rev xs)))"
    by (simp add: sorted_reverse_def rev_filter)
  also have "\<dots> = rev (filter (\<lambda>y. f y = k) (rev xs))"
    by (simp only: sort_key_stable)
  also have "\<dots> = filter (\<lambda>y. f y = k) xs"
    by (simp add: rev_filter)
  finally show ?thesis .
qed

lemma ids_of_present:
  "\<forall>t \<in> set ts. id_key t \<noteq> None \<Longrightarrow> ids_of ts = Inr {i. Some i \<in> id_key ` set ts}"
proof (induction ts)
  case Nil
  then show ?case by simp
next
  case (Cons t ts)
  then obtain i where i: "id_key t = Some i" by auto
  from Cons have "ids_of ts = Inr {i. Some i \<in> id_key ` set ts}" by simp
  with i show ?case by auto
qed

lemma fill_take:
  "\<forall>r \<in> set remaining. id_key r \<noteq> None \<Longrightarrow> int (length tagged) < limit \<Longrightarrow>
   fill ids limit tagged remaining
     = Inr (take (nat limit) (tagged @ filter (\<lambda>r. id_key r \<notin> Some ` ids) remaining))"
proof (induction remaining arbitrary: tagged)
  case Nil
  then show ?case by simp
next
  case (Cons item remaining)
  then obtain i where i: "id_key item = Some i" by auto
  show ?case
  proof (cases "i \<in> ids")
    case True
    then have drop: "id_key item \<in> Some ` ids" using i by simp
    from Cons.IH [of tagged] Cons.prems
    have "fill ids limit tagged remaining
            = Inr (take (nat limit) (tagged @ filter (\<lambda>r. id_key r \<notin> Some ` ids) remaining))"
      by simp
    with i True drop Cons.prems(2) show ?thesis by (simp del: take_append)
  next
    case False
    then have keep: "id_key item \<notin> Some ` ids" using i by auto
    show ?thesis
    proof (cases "limit \<le> int (length (tagged @ [item]))")
      case True
      with Cons.prems(2) have "nat limit = Suc (length tagged)" by simp
      with i False keep True show ?thesis by simp
    next
      case f: False
      then have "int (length (tagged @ [item])) < limit" by simp
      with Cons.IH [of "tagged @ [item]"] Cons.prems(1)
      have "fill ids limit (tagged @ [item]) remaining
              = Inr (take (nat limit) ((tagged @ [item]) @ filter (\<lambda>r. id_key r \<notin> Some ` ids) remaining))"
        by simp
      with i False keep f show ?thesis by (simp del: take_append)
    qed
  qed
qed

lemma slice_to_take: "0 \<le> n \<Longrightarrow> slice_to (take (nat n) xs) n = take (nat n) xs"
  by (simp add: slice_to_def)

lemma trending_fill_eq:
  assumes ids: "\<forall>r \<in> set data. id_key r \<noteq> None"
    and few: "int (length (filter is_tagged data)) < limit"
  shows "trending data limit
     = Inr (take (nat limit) (filter is_tagged data
              @ filter (\<lambda>r. id_key r \<notin> id_key ` set (filter is_tagged data))
                  (sorted_reverse sale_key data)))"
proof -
  let ?tagged = "filter is_tagged data"
  let ?ids = "{i. Some i \<in> id_key ` set ?tagged}"
  from ids have t: "\<forall>t \<in> set ?tagged. id_key t \<noteq> None" by simp
  have a: "ids_of ?tagged = Inr ?ids" by (rule ids_of_present [OF t])
  from ids have r: "\<forall>r \<in> set (sorted_reverse sale_key data). id_key r \<noteq> None"
    by (simp add: set_sorted_reverse)
  have b: "fill ?ids limit ?tagged (sorted_reverse sale_key data)
      = Inr (take (nat limit) (?tagged @ filter (\<lambda>r. id_key r \<notin> Some ` ?ids) (sorted_reverse sale_key data)))"
    by (rule fill_take [OF r few])
  have c: "Some ` ?ids = id_key ` set ?tagged"
    using t by (auto simp: image_iff) (metis not_None_eq)
  from few have pos: "0 \<le> limit" by linarith
  have "trending data limit
      = (case ids_of ?tagged of Inl e \<Rightarrow> Inl e
         | Inr ids \<Rightarrow>
             (case fill ids limit ?tagged (sorted_reverse sale_key data) of
                Inl e \<Rightarrow> Inl e | Inr tg \<Rightarrow> Inr (slice_to tg limit)))"
    using few by (simp add: trending_def Let_def)
  also have "\<dots> = Inr (slice_to (take (nat limit) (?tagged @ filter (\<lambda>r. id_key r \<notin> Some ` ?ids) (sorted_reverse sale_key data))) limit)"
    by (simp only: a b sum.case)
  also have "\<dots> = Inr (take (nat limit) (?tagged @ filter (\<lambda>r. id_key r \<notin> Some ` ?ids) (sorted_reverse sale_key data)))"
    by (simp only: slice_to_take [OF pos])
  finally show ?thesis by (simp only: c)
qed

lemma trending_tagged_eq:
  "limit \<le> int (length (filter is_tagged data)) \<Longrightarrow>
   trending data limit = Inr (slice_to (filter is_tagged data) limit)"
  by (simp add: trending_def Let_def)

lemma sale_key_last_sale: "sale_key x = (case last_sale_of x of None \<Rightarrow> 0 | Some p \<Rightarrow> p)"
  by (simp add: sale_key_def last_sale_of_def split: option.splits)

text \<open>
  C4. When fewer than \<open>limit\<close> records are tagged and every record carries an id,
  \<open>trending\<close> returns the tagged records followed by the records of the sorted catalog
  whose id is not the id of a tagged record, cut at \<open>limit\<close> records (all of them when
  the catalog runs out first). The sorted catalog is a rearrangement of the catalog, in
  descending order of the sort key, records with equal keys in catalog order; the key is
  the last sale price, 0 when it is absent. On the example catalog, \<open>trending\<close> with
  limit 2 returns \<open>b\<close> and \<open>c\<close>.
\<close>

theorem trending_fills_by_last_sale:
  "((\<forall>r \<in> set data. id_key r \<noteq> None) \<and> int (length (filter is_tagged data)) < limit \<longrightarrow>
      trending data limit
        = Inr (take (nat limit) (filter is_tagged data
                 @ filter (\<lambda>r. id_key r \<notin> id_key ` set (filter is_tagged data))
                     (sorted_reverse sale_key data)))) \<and>
   mset (sorted_reverse sale_key data) = mset data \<and>
   sorted_wrt (\<lambda>x y. sale_key x \<ge> sale_key y) (sorted_reverse sale_key data) \<and>
   (\<forall>k. filter (\<lambda>y. sale_key y = k) (sorted_reverse sale_key data)
          = filter (\<lambda>y. sale_key y = k) data) \<and>
   (\<forall>x. sale_key x = (case last_sale_of x of None \<Rightarrow> 0 | Some p \<Rightarrow> p)) \<and>
   trending catalog 2 = Inr [mk ''b'' [''trending''] 50, mk ''c'' [] 200]"
proof (intro conjI impI allI)
  assume "(\<forall>r \<in> set data. id_key r \<noteq> None) \<and> int (length (filter is_tagged data)) < limit"
  then show "trending data limit
        = Inr (take (nat limit) (filter is_tagged data
                 @ filter (\<lambda>r. id_key r \<notin> id_key ` set (filter is_tagged data))
                     (sorted_reverse sale_key data)))"
    using trending_fill_eq [of data limit] by blast
next
  show "mset (sorted_reverse sale_key data) = mset data"
    by (rule mset_sorted_reverse)
next
  show "sorted_wrt (\<lambda>x y. sale_key x \<ge> sale_key y) (sorted_reverse sale_key data)"
    by (rule sorted_reverse_descending)
next
  fix k show "filter (\<lambda>y. sale_key y = k) (sorted_reverse sale_key data)
             = filter (\<lambda>y. sale_key y = k) data"
    by (rule sorted_reverse_stable)
next
  fix x show "sale_key x = (case last_sale_of x of None \<Rightarrow> 0 | Some p \<Rightarrow> p)"
    by (rule sale_key_last_sale)
next
  show "trending catalog 2 = Inr [mk ''b'' [''trending''] 50, mk ''c'' [] 200]"
    by code_simp
qed

text \<open>
  On a catalog with one tagged record and two records without a price, the fill takes
  the priced record first and the two others in catalog order.
\<close>

theorem trending_fills_by_last_sale_witness:
  "map id_key shelf = [Some ''n'', Some ''a'', Some ''o'', Some ''b''] \<and>
   int (length (filter is_tagged shelf)) < 10 \<and>
   trending shelf 10
     = Inr (take (nat 10) (filter is_tagged shelf
              @ filter (\<lambda>r. id_key r \<notin> id_key ` set (filter is_tagged shelf))
                  (sorted_reverse sale_key shelf))) \<and>
   trending shelf 10
     = Inr [mk ''b'' [''trending''] 50, mk ''a'' [] 100, named ''n'' ''Air'', named ''o'' ''Dunk'']"
proof -
  have h0: "map id_key shelf = [Some ''n'', Some ''a'', Some ''o'', Some ''b'']"
    by (simp add: shelf_def named_def mk_def)
  have h1: "\<forall>r \<in> set shelf. id_key r \<noteq> None"
    by (simp add: shelf_def named_def mk_def)
  have h2: "int (length (filter is_tagged shelf)) < 10"
    by (simp add: shelf_def named_def mk_def is_tagged_def)
  have v: "trending shelf 10
     = Inr [mk ''b'' [''trending''] 50, mk ''a'' [] 100, named ''n'' ''Air'', named ''o'' ''Dunk'']"
    by code_simp
  from h1 h2 trending_fills_by_last_sale [of shelf 10]
  have "trending shelf 10
     = Inr (take (nat 10) (filter is_tagged shelf
              @ filter (\<lambda>r. id_key r \<notin> id_key ` set (filter is_tagged shelf))
                  (sorted_reverse sale_key shelf)))"
    by blast
  with h0 h2 v show ?thesis by blast
qed

text \<open>
  C7. When at least \<open>limit\<close> records are tagged (\<open>limit\<close> not negative),
  \<open>trending\<close> returns the first \<open>limit\<close> tagged records in catalog order: exactly
  \<open>limit\<close> records, all of them tagged.
\<close>

theorem trending_tagged_first:
  "0 \<le> limit \<and> limit \<le> int (length (filter is_tagged data)) \<longrightarrow>
     trending data limit = Inr (take (nat limit) (filter is_tagged data)) \<and>
     length (take (nat limit) (filter is_tagged data)) = nat limit \<and>
     (\<forall>r \<in> set (take (nat limit) (filter is_tagged data)). is_tagged r)"
proof (intro impI conjI ballI)
  assume h: "0 \<le> limit \<and> limit \<le> int (length (filter is_tagged data))"
  then show "trending data limit = Inr (take (nat limit) (filter is_tagged data))"
    by (simp add: trending_tagged_eq slice_to_def)
  from h have "nat limit \<le> length (filter is_tagged data)"
    by linarith
  then show "length (take (nat limit) (filter is_tagged data)) = nat limit"
    by simp
next
  fix r assume "r \<in> set (take (nat limit) (filter is_tagged data))"
  then have "r \<in> set (filter is_tagged data)" by (rule in_set_takeD)
  then show "is_tagged r" by simp
qed

theorem trending_tagged_first_witness:
  "(0::int) \<le> 1 \<and> 1 \<le> int (length (filter is_tagged twins)) \<and>
   trending twins 1 = Inr (take (nat 1) (filter is_tagged twins)) \<and>
   trending twins 1 = Inr [mk ''a'' [''trending''] 100]"
proof -
  have h: "(0::int) \<le> 1 \<and> 1 \<le> int (length (filter is_tagged twins))"
    by (simp add: twins_def mk_def is_tagged_def)
  have v: "trending twins 1 = Inr [mk ''a'' [''trending''] 100]"
    by code_simp
  from h trending_tagged_first [of 1 twins]
  have "trending twins 1 = Inr (take (nat 1) (filter is_tagged twins))"
    by blast
  with h v show ?thesis by blast
qed

section \<open>Trending: size and ids of the result\<close>

lemma distinct_ids_sorted_reverse:
  "distinct (map id_key data) \<Longrightarrow> distinct (map id_key (sorted_reverse sale_key data))"
proof -
  assume d: "distinct (map id_key data)"
  have "mset (map id_key (sorted_reverse sale_key data)) = mset (map id_key data)"
    by (simp add: mset_sorted_reverse)
  then show ?thesis using d by (metis mset_eq_imp_distinct_iff)
qed

lemma distinct_ids_fill:
  assumes d: "distinct (map id_key data)"
  shows "distinct (map id_key (filter is_tagged data
           @ filter (\<lambda>r. id_key r \<notin> id_key ` set (filter is_tagged data))
               (sorted_reverse sale_key data)))"
proof -
  let ?tagged = "filter is_tagged data"
  let ?rest = "filter (\<lambda>r. id_key r \<notin> id_key ` set ?tagged) (sorted_reverse sale_key data)"
  have 1: "distinct (map id_key ?tagged)"
    using d by (rule distinct_map_filter)
  have 2: "distinct (map id_key ?rest)"
    using distinct_ids_sorted_reverse [OF d] by (rule distinct_map_filter)
  have 3: "set (map id_key ?tagged) \<inter> set (map id_key ?rest) = {}"
  proof -
    have "\<And>k. k \<in> set (map id_key ?rest) \<Longrightarrow> k \<notin> set (map id_key ?tagged)"
      by auto
    then show ?thesis by blast
  qed
  from 1 2 3 show ?thesis by simp
qed

lemma distinct_ids_take:
  "distinct (map id_key xs) \<Longrightarrow> distinct (map id_key (take n xs))"
proof -
  assume "distinct (map id_key xs)"
  then have "distinct (take n (map id_key xs))" by (rule distinct_take)
  then show ?thesis by (simp only: take_map)
qed

text \<open>
  C1 as stated fails: two tagged records that share the id \<open>a\<close> are both returned at
  limit 2. The tagged list is taken from the catalog as it is, and the id set only keeps
  records already tagged out of the fill.
\<close>

theorem trending_duplicate_counterexample:
  "trending twins 2 = Inr [mk ''a'' [''trending''] 100, mk ''a'' [''trending''] 50] \<and>
   id_key (mk ''a'' [''trending''] 100) = id_key (mk ''a'' [''trending''] 50) \<and>
   mk ''a'' [''trending''] 100 \<noteq> mk ''a'' [''trending''] 50"
  by code_simp

text \<open>
  C1, amended. For every positive \<open>limit\<close> and every catalog whose records all carry an
  id, \<open>trending\<close> returns a list of at most \<open>limit\<close> records; when the ids of the
  catalog are pairwise distinct, so are the ids of the records returned.
\<close>

theorem trending_limit_and_distinct:
  "0 < limit \<and> list_all (\<lambda>r. id_key r \<noteq> None) data \<longrightarrow>
     (\<exists>out. trending data limit = Inr out \<and> int (length out) \<le> limit \<and>
        (distinct (map id_key data) \<longrightarrow> distinct (map id_key out)))"
proof (intro impI)
  assume h: "0 < limit \<and> list_all (\<lambda>r. id_key r \<noteq> None) data"
  then have ids: "\<forall>r \<in> set data. id_key r \<noteq> None"
    by (simp add: list_all_iff)
  from h have pos: "0 \<le> limit" by simp
  show "\<exists>out. trending data limit = Inr out \<and> int (length out) \<le> limit \<and>
        (distinct (map id_key data) \<longrightarrow> distinct (map id_key out))"
  proof (cases "int (length (filter is_tagged data)) < limit")
    case True
    let ?out = "take (nat limit) (filter is_tagged data
                 @ filter (\<lambda>r. id_key r \<notin> id_key ` set (filter is_tagged data))
                     (sorted_reverse sale_key data))"
    have a: "trending data limit = Inr ?out"
      by (rule trending_fill_eq [OF ids True])
    have b: "int (length ?out) \<le> limit"
      using pos by (simp del: take_append)
    have c: "distinct (map id_key data) \<longrightarrow> distinct (map id_key ?out)"
      using distinct_ids_fill distinct_ids_take by blast
    from a b c show ?thesis by blast
  next
    case False
    let ?out = "take (nat limit) (filter is_tagged data)"
    from False have "limit \<le> int (length (filter is_tagged data))" by simp
    then have a: "trending data limit = Inr ?out"
      using pos by (simp add: trending_tagged_eq slice_to_def)
    have b: "int (length ?out) \<le> limit"
      using pos by simp
    have c: "distinct (map id_key data) \<longrightarrow> distinct (map id_key ?out)"
      using distinct_map_filter distinct_ids_take by blast
    from a b c show ?thesis by blast
  qed
qed

theorem trending_limit_and_distinct_witness:
  "(0::int) < 2 \<and> list_all (\<lambda>r. id_key r \<noteq> None) catalog \<and>
   distinct (map id_key catalog) \<and>
   trending catalog 2 = Inr [mk ''b'' [''trending''] 50, mk ''c'' [] 200] \<and>
   int (length [mk ''b'' [''trending''] 50, mk ''c'' [] 200]) \<le> 2 \<and>
   distinct (map id_key [mk ''b'' [''trending''] 50, mk ''c'' [] 200])"
proof -
  have h: "(0::int) < 2 \<and> list_all (\<lambda>r. id_key r \<noteq> None) catalog"
    by (simp add: catalog_def mk_def)
  have d: "distinct (map id_key catalog)"
    by (simp add: catalog_def mk_def)
  have v: "trending catalog 2 = Inr [mk ''b'' [''trending''] 50, mk ''c'' [] 200]"
    by code_simp
  from h trending_limit_and_distinct [of 2 catalog]
  obtain out where o: "trending catalog 2 = Inr out" "int (length out) \<le> 2"
      "distinct (map id_key catalog) \<longrightarrow> distinct (map id_key out)"
    by blast
  from o(1) v have e: "out = [mk ''b'' [''trending''] 50, mk ''c'' [] 200]" by simp
  from o(2) e have l: "int (length [mk ''b'' [''trending''] 50, mk ''c'' [] 200]) \<le> 2" by simp
  from o(3) d e have dd: "distinct (map id_key [mk ''b'' [''trending''] 50, mk ''c'' [] 200])" by simp
  from h d v l dd show ?thesis by blast
qed

section \<open>Detail lookup: first match or 404\<close>

lemma sneaker_detail_not_found:
  "sneaker_detail data i = Inl e \<longleftrightarrow> e = HTTPException 404 \<and> (\<forall>s \<in> set data. id_key s \<noteq> Some i)"
  by (induction data) auto

lemma sneaker_detail_found:
  "sneaker_detail data i = Inr s \<longleftrightarrow>
     (\<exists>pre post. data = pre @ s # post \<and> id_key s = Some i \<and> (\<forall>x \<in> set pre. id_key x \<noteq> Some i))"
proof (induction data)
  case Nil
  then show ?case by simp
next
  case (Cons a data)
  show ?case
  proof (cases "id_key a = Some i")
    case True
    have "(\<exists>pre post. a # data = pre @ s # post \<and> id_key s = Some i \<and> (\<forall>x \<in> set pre. id_key x \<noteq> Some i))
            \<longleftrightarrow> a = s"
    proof
      assume "\<exists>pre post. a # data = pre @ s # post \<and> id_key s = Some i \<and> (\<forall>x \<in> set pre. id_key x \<noteq> Some i)"
      then obtain pre post where p: "a # data = pre @ s # post" "\<forall>x \<in> set pre. id_key x \<noteq> Some i"
        by blast
      show "a = s"
      proof (cases pre)
        case Nil
        with p show ?thesis by simp
      next
        case (Cons b pre')
        with p True show ?thesis by auto
      qed
    next
      assume "a = s"
      with True have "a # data = [] @ s # data \<and> id_key s = Some i \<and> (\<forall>x \<in> set []. id_key x \<noteq> Some i)"
        by simp
      then show "\<exists>pre post. a # data = pre @ s # post \<and> id_key s = Some i \<and> (\<forall>x \<in> set pre. id_key x \<noteq> Some i)"
        by blast
    qed
    with True show ?thesis by auto
  next
    case False
    have "(\<exists>pre post. a # data = pre @ s # post \<and> id_key s = Some i \<and> (\<forall>x \<in> set pre. id_key x \<noteq> Some i))
            \<longleftrightarrow> (\<exists>pre post. data = pre @ s # post \<and> id_key s = Some i \<and> (\<forall>x \<in> set pre. id_key x \<noteq> Some i))"
    proof
      assume "\<exists>pre post. a # data = pre @ s # post \<and> id_key s = Some i \<and> (\<forall>x \<in> set pre. id_key x \<noteq> Some i)"
      then obtain pre post where p: "a # data = pre @ s # post" "id_key s = Some i"
          "\<forall>x \<in> set pre. id_key x \<noteq> Some i"
        by blast
      show "\<exists>pre post. data = pre @ s # post \<and> id_key s = Some i \<and> (\<forall>x \<in> set pre. id_key x \<noteq> Some i)"
      proof (cases pre)
        case Nil
        with p False show ?thesis by simp
      next
        case (Cons b pre')
        with p have "data = pre' @ s # post \<and> id_key s = Some i \<and> (\<forall>x \<in> set pre'. id_key x \<noteq> Some i)"
          by simp
        then show ?thesis by blast
      qed
    next
      assume "\<exists>pre post. data = pre @ s # post \<and> id_key s = Some i \<and> (\<forall>x \<in> set pre. id_key x \<noteq> Some i)"
      then obtain pre post where p: "data = pre @ s # post" "id_key s = Some i"
          "\<forall>x \<in> set pre. id_key x \<noteq> Some i"
        by blast
      with False have "a # data = (a # pre) @ s # post \<and> id_key s = Some i
          \<and> (\<forall>x \<in> set (a # pre). id_key x \<noteq> Some i)"
        by simp
      then show "\<exists>pre post. a # data = pre @ s # post \<and> id_key s = Some i \<and> (\<forall>x \<in> set pre. id_key x \<noteq> Some i)"
        by blast
    qed
    with False Cons.IH show ?thesis by simp
  qed
qed

text \<open>
  C8. \<open>sneaker_detail\<close> raises the 404 exception exactly when no record of the catalog
  has the requested id, and it raises nothing else; when some record has the id, it
  returns the first such record: the catalog splits into records without the id, the
  record returned, and the rest.
\<close>

theorem sneaker_detail_first_match:
  "(sneaker_detail data i = Inl (HTTPException 404) \<longleftrightarrow> (\<forall>s \<in> set data. id_key s \<noteq> Some i)) \<and>
   (\<forall>e. sneaker_detail data i = Inl e \<longrightarrow> e = HTTPException 404) \<and>
   ((\<exists>s \<in> set data. id_key s = Some i) \<longrightarrow>
      (\<exists>pre s post. data = pre @ s # post \<and> id_key s = Some i \<and>
         (\<forall>x \<in> set pre. id_key x \<noteq> Some i) \<and> sneaker_detail data i = Inr s))"
proof (intro conjI allI impI)
  show "sneaker_detail data i = Inl (HTTPException 404) \<longleftrightarrow> (\<forall>s \<in> set data. id_key s \<noteq> Some i)"
    by (simp add: sneaker_detail_not_found)
next
  fix e assume "sneaker_detail data i = Inl e"
  then show "e = HTTPException 404" by (simp add: sneaker_detail_not_found)
next
  assume ex: "\<exists>s \<in> set data. id_key s = Some i"
  obtain s where s: "sneaker_detail data i = Inr s"
  proof (cases "sneaker_detail data i")
    case (Inl e)
    with ex show ?thesis by (auto simp: sneaker_detail_not_found)
  next
    case (Inr s)
    then show ?thesis by (rule that)
  qed
  then obtain pre post where "data = pre @ s # post" "id_key s = Some i"
      "\<forall>x \<in> set pre. id_key x \<noteq> Some i"
    unfolding sneaker_detail_found by blast
  with s show "\<exists>pre s post. data = pre @ s # post \<and> id_key s = Some i \<and>
         (\<forall>x \<in> set pre. id_key x \<noteq> Some i) \<and> sneaker_detail data i = Inr s"
    by blast
qed

text \<open>
  In a catalog where three records share the id \<open>a\<close> the first of them is returned;
  an id that no record has gives 404.
\<close>

theorem sneaker_detail_first_match_witness:
  "sneaker_detail (catalog @ twins) ''a'' = Inr (mk ''a'' [] 100) \<and>
   sneaker_detail (catalog @ twins) ''z'' = Inl (HTTPException 404) \<and>
   map id_key (catalog @ twins) = [Some ''a'', Some ''b'', Some ''c'', Some ''a'', Some ''a'']"
proof -
  have m: "map id_key (catalog @ twins) = [Some ''a'', Some ''b'', Some ''c'', Some ''a'', Some ''a'']"
    by (simp add: catalog_def twins_def mk_def)
  have a: "sneaker_detail (catalog @ twins) ''a'' = Inr (mk ''a'' [] 100)"
    by code_simp
  have "\<forall>s \<in> set (catalog @ twins). id_key s \<noteq> Some ''z''"
    by (simp add: catalog_def twins_def mk_def)
  with sneaker_detail_first_match [of "catalog @ twins" "''z''"]
  have z: "sneaker_detail (catalog @ twins) ''z'' = Inl (HTTPException 404)"
    by blast
  from m a z show ?thesis by blast
qed

section \<open>The loader swallows failures\<close>

text \<open>
  C10. Whatever exception of class \<^verbatim>\<open>Exception\<close> opening the file or parsing it
  raises (a missing or unreadable file, a wrong encoding, malformed JSON), \<open>load_mock\<close>
  returns the empty list; when the file parses, it returns the parsed list as it is; and
  it never raises an exception of class \<^verbatim>\<open>Exception\<close> itself.
\<close>

theorem load_mock_swallows:
  "(\<forall>e. is_Exception e \<longrightarrow> load_mock (Inl e) json_load = Inr []) \<and>
   (\<forall>e. is_Exception e \<and> json_load f = Inl e \<longrightarrow> load_mock (Inr f) json_load = Inr []) \<and>
   (\<forall>xs. json_load f = Inr xs \<longrightarrow> load_mock (Inr f) json_load = Inr xs) \<and>
   is_Exception OSError \<and> is_Exception UnicodeDecodeError \<and> is_Exception JSONDecodeError \<and>
   (\<forall>opened e. load_mock opened json_load = Inl e \<longrightarrow> \<not> is_Exception e)"
  by (auto simp: load_mock_def split: sum.splits if_splits)

theorem load_mock_swallows_witness:
  "load_mock (Inl OSError) (\<lambda>f. Inr [f]) = Inr [] \<and>
   load_mock (Inr ''{'') (\<lambda>f. if f = ''{'' then Inl JSONDecodeError else Inr [f]) = Inr [] \<and>
   load_mock (Inr ''[1]'') (\<lambda>f. if f = ''{'' then Inl JSONDecodeError else Inr [f]) = Inr [''[1]'']"
proof -
  let ?p = "\<lambda>f. if f = ''{'' then Inl JSONDecodeError else Inr [f] :: py_exc + string list"
  have 1: "load_mock (Inl OSError) (\<lambda>f. Inr [f]) = Inr ([] :: string list)"
    using load_mock_swallows [of "\<lambda>f. Inr [f]" "''x''"] by simp
  have 2: "load_mock (Inr ''{'') ?p = Inr []"
    using load_mock_swallows [of ?p "''{''"] by simp
  have 3: "load_mock (Inr ''[1]'') ?p = Inr [''[1]'']"
    using load_mock_swallows [of ?p "''[1]''"] by simp
  from 1 2 3 show ?thesis by blast
qed

end
